theory Spec2Isabelle
  imports Complex_Main
begin

section \<open>The notebook \<open>final_project.py\<close> as HOL functions\<close>

text \<open>
  The notebook assembles the one-dimensional mass and stiffness matrices of a Chebyshev
  spectral element and leaves two exercises as stubs (\<open>compute_error_one_d\<close>, \<open>cg\<close>).
  Python floats are read as real numbers, so every statement below is about the
  exact-arithmetic meaning of the code; rounding is outside the model.
  A numpy vector is a \<open>real list\<close>, a matrix is the list of its rows, and an exception is
  the left summand of a result.
\<close>

datatype error =
    ValueError
  | IndexError
  | ZeroDivisionError
  | AttributeError
  | InvalidDiscretization
    \<comment> \<open>the name the specification uses; no path of the source raises it\<close>

type_synonym vector = "real list"
type_synonym matrix = "real list list"

subsection \<open>The numpy and scipy routines the notebook calls\<close>

text \<open>\<open>np.zeros((r, c))\<close>: a negative dimension raises ValueError.\<close>

definition zeros2 :: "int \<Rightarrow> int \<Rightarrow> error + matrix" where
  "zeros2 r c =
     (if r < 0 \<or> c < 0 then Inl ValueError
      else Inr (replicate (nat r) (replicate (nat c) 0)))"

text \<open>
  \<open>np.polynomial.chebyshev.chebpts2(npts)\<close>:
  \<^verbatim>\<open>
    if _npts < 2: raise ValueError("npts must be >= 2")
    x = 0.5 * np.pi / (_npts - 1) * np.arange(-_npts+1, _npts+1, 2)
    return np.sin(x)
  \<close>
  (older releases return \<open>cos\<close> of \<open>linspace(-pi, 0, npts)\<close>, the same numbers).
\<close>

definition arange2 :: "int \<Rightarrow> int \<Rightarrow> int list" where
  \<comment> \<open>\<open>np.arange(-npts+1, npts+1, 2)\<close>, the \<open>npts\<close> integers \<open>-npts+1, -npts+3, ...\<close>\<close>
  "arange2 start npts = map (\<lambda>k. start + 2 * int k) [0..<nat npts]"

definition chebpts2 :: "int \<Rightarrow> error + vector" where
  "chebpts2 npts =
     (if npts < 2 then Inl ValueError
      else Inr (map (\<lambda>j. sin (0.5 * pi / real_of_int (npts - 1) * real_of_int j))
                    (arange2 (- npts + 1) npts)))"

text \<open>
  \<open>np.polynomial.legendre.leggauss(deg)\<close> raises ValueError for \<open>deg < 1\<close> and otherwise
  returns two arrays of length \<open>deg\<close>, the Gauss-Legendre points and weights. Their values
  are roots of Legendre polynomials and have no closed form, so the table of the rule is a
  parameter: \<open>gl deg k\<close> is the \<open>k\<close>-th (point, weight) pair of the \<open>deg\<close>-point rule.
\<close>

type_synonym gauss_table = "int \<Rightarrow> nat \<Rightarrow> real \<times> real"

definition leggauss :: "gauss_table \<Rightarrow> int \<Rightarrow> error + vector \<times> vector" where
  "leggauss gl deg =
     (if deg < 1 then Inl ValueError
      else Inr (map (\<lambda>k. fst (gl deg k)) [0..<nat deg],
                map (\<lambda>k. snd (gl deg k)) [0..<nat deg]))"

text \<open>
  \<open>np.poly1d\<close>: a polynomial is the array of its coefficients, highest power first, with
  leading zeros trimmed (the zero polynomial is \<open>[0]\<close>). Calling it is \<open>np.polyval\<close>,
  the Horner loop \<^verbatim>\<open>y = 0; for pv in p: y = y * x + pv\<close>.
\<close>

type_synonym poly1d = "real list"

definition poly1d :: "real list \<Rightarrow> poly1d" where
  "poly1d c = (case dropWhile (\<lambda>a. a = 0) c of [] \<Rightarrow> [0] | a # as \<Rightarrow> a # as)"

definition polyval :: "poly1d \<Rightarrow> real \<Rightarrow> real" where
  "polyval p x = foldl (\<lambda>y pv. y * x + pv) 0 p"

text \<open>\<open>np.polyadd\<close> pads the shorter array with leading zeros and adds entry by entry.\<close>

definition polyadd :: "real list \<Rightarrow> real list \<Rightarrow> real list" where
  "polyadd a1 a2 =
     map2 (+) (replicate (length a2 - length a1) 0 @ a1)
              (replicate (length a1 - length a2) 0 @ a2)"

text \<open>
  \<open>np.polymul\<close> is \<open>np.convolve\<close>, the discrete convolution
  \<open>(a * v)[n] = \<Sum>m. a[m] * v[n - m]\<close>; it is accumulated here one entry of \<open>a\<close> at a
  time, the entry \<open>a[0]\<close> contributing \<open>a[0] * v\<close> shifted to the top positions.
\<close>

fun convolve :: "real list \<Rightarrow> real list \<Rightarrow> real list" where
  "convolve [] v = []"
| "convolve (a # as) v =
     polyadd (map (\<lambda>c. a * c) v @ replicate (length as) 0) (convolve as v)"

definition poly_mul :: "poly1d \<Rightarrow> poly1d \<Rightarrow> poly1d" where
  \<comment> \<open>\<open>poly1d.__mul__\<close> on two polynomials\<close>
  "poly_mul p1 p2 = poly1d (convolve p1 p2)"

definition poly_add :: "poly1d \<Rightarrow> poly1d \<Rightarrow> poly1d" where
  \<comment> \<open>\<open>poly1d.__add__\<close>\<close>
  "poly_add p1 p2 = poly1d (polyadd p1 p2)"

definition poly_div_scalar :: "poly1d \<Rightarrow> real \<Rightarrow> poly1d" where
  \<comment> \<open>\<open>poly1d.__truediv__\<close> by a scalar; numpy does not raise on a zero divisor\<close>
  "poly_div_scalar p c = poly1d (map (\<lambda>a. a / c) p)"

text \<open>
  \<open>np.polyder\<close>, the exact derivative on coefficients
  (\<^verbatim>\<open>p[:-1] * arange(n, 0, -1)\<close> with \<open>n = len(p) - 1\<close>). The notebook's text
  uses it (\<^verbatim>\<open>B_3_prime = polyder(B_3)\<close>) to say what the derivative of a basis
  function is; the code below calls \<open>scipy.misc.derivative\<close> instead.
\<close>

definition polyder :: "poly1d \<Rightarrow> poly1d" where
  "polyder p =
     poly1d (map (\<lambda>k. p ! k * real (length p - 1 - k)) [0..<length p - 1])"

text \<open>
  \<open>scipy.interpolate.lagrange(x, w)\<close>:
  \<^verbatim>\<open>
    M = len(x)
    p = poly1d(0.0)
    for j in range(M):
        pt = poly1d(w[j])
        for k in range(M):
            if k == j:
                continue
            fac = x[j]-x[k]
            pt *= poly1d([1.0, -x[k]])/fac
        p += pt
    return p
  \<close>
\<close>

definition lagrange_term :: "vector \<Rightarrow> vector \<Rightarrow> nat \<Rightarrow> poly1d" where
  "lagrange_term x w j =
     fold (\<lambda>k pt. if k = j then pt
                  else poly_mul pt (poly_div_scalar (poly1d [1, - (x ! k)]) (x ! j - x ! k)))
          [0..<length x] (poly1d [w ! j])"

definition lagrange :: "vector \<Rightarrow> vector \<Rightarrow> error + poly1d" where
  "lagrange x w =
     (if length w < length x then Inl IndexError
      else Inr (fold (\<lambda>j p. poly_add p (lagrange_term x w j)) [0..<length x] (poly1d [0])))"

text \<open>
  \<open>scipy.misc.derivative(func, x0)\<close> with its defaults \<open>dx=1.0, n=1, order=3\<close>:
  \<^verbatim>\<open>
    weights = array([-1,0,1])/2.0
    val = 0.0
    ho = order >> 1
    for k in range(order):
        val += weights[k]*func(x0+(k-ho)*dx,*args)
    return val / prod((dx,)*n,axis=0)
  \<close>
  a central difference with spacing 1.
\<close>

definition derivative :: "(real \<Rightarrow> real) \<Rightarrow> real \<Rightarrow> real" where
  "derivative func x0 =
     (let dx = 1; order = 3;
          weights = map (\<lambda>c. c / 2) [-1, 0, 1];
          ho = order div 2;
          val = fold (\<lambda>k val. val + weights ! k * func (x0 + (real k - real ho) * dx))
                     [0..<order] 0
      in val / dx)"

text \<open>
  \<open>np.einsum('iq, q, jq', D, w, D)\<close>: the output has the free indices \<open>i\<close>, \<open>j\<close> and the
  repeated index \<open>q\<close> is summed. A length of \<open>w\<close> other than the row length is a shape
  error.
\<close>

definition einsum_iq_q_jq :: "matrix \<Rightarrow> vector \<Rightarrow> matrix \<Rightarrow> error + matrix" where
  "einsum_iq_q_jq D1 w D2 =
     (if (\<forall>r \<in> set D1. length r = length w) \<and> (\<forall>r \<in> set D2. length r = length w)
      then Inr (map (\<lambda>i. map (\<lambda>j. \<Sum>q \<leftarrow> [0..<length w]. D1 ! i ! q * w ! q * D2 ! j ! q)
                              [0..<length D2])
                    [0..<length D1])
      else Inl ValueError)"

definition mat_add :: "matrix \<Rightarrow> matrix \<Rightarrow> matrix" where
  \<comment> \<open>\<open>K + M\<close> on arrays of one shape\<close>
  "mat_add K M = map2 (map2 (+)) K M"

subsection \<open>One dimensional matrices (lines 238 to 270)\<close>

text \<open>
  \<^verbatim>\<open>
  def get_e(n):
      e = np.zeros((n, n))
      for i in range(n):
          e[i, i] = 1
      return e
  \<close>
\<close>

definition get_e :: "int \<Rightarrow> error + matrix" where
  "get_e n =
     (case zeros2 n n of
        Inl err \<Rightarrow> Inl err
      | Inr e \<Rightarrow> Inr (fold (\<lambda>i e. e[i := (e ! i)[i := 1]]) [0..<nat n] e))"

text \<open>
  \<^verbatim>\<open>
  def get_basis(n, e, X, i):
      v = lagrange(X, e[i])
      return v
  \<close>
  The index \<open>i\<close> is a natural number, as the callers take it from \<open>range(n)\<close>.
\<close>

definition get_basis :: "int \<Rightarrow> matrix \<Rightarrow> vector \<Rightarrow> nat \<Rightarrow> error + poly1d" where
  "get_basis n e X i = (if i < length e then lagrange X (e ! i) else Inl IndexError)"

text \<open>
  The two nested loops of \<open>compute_one_dimensional_matrices\<close>:
  \<^verbatim>\<open>
    for i in range(0, n):
        v = get_basis(n, e, X, i)
        for alpha in range(0, n):
            B[i, alpha] = v(q[alpha])
            D[i, alpha] = derivative(v, q[alpha])
  \<close>
\<close>

fun fill_row :: "poly1d \<Rightarrow> vector \<Rightarrow> nat \<Rightarrow> nat list \<Rightarrow> matrix \<times> matrix \<Rightarrow> error + matrix \<times> matrix"
  where
  "fill_row v q i [] BD = Inr BD"
| "fill_row v q i (alpha # rest) (B, D) =
     (if alpha < length q
      then fill_row v q i rest
             (B[i := (B ! i)[alpha := polyval v (q ! alpha)]],
              D[i := (D ! i)[alpha := derivative (polyval v) (q ! alpha)]])
      else Inl IndexError)"

fun fill_rows ::
  "int \<Rightarrow> matrix \<Rightarrow> vector \<Rightarrow> vector \<Rightarrow> nat list \<Rightarrow> matrix \<times> matrix \<Rightarrow> error + matrix \<times> matrix"
  where
  "fill_rows n e X q [] BD = Inr BD"
| "fill_rows n e X q (i # rest) BD =
     (case get_basis n e X i of
        Inl err \<Rightarrow> Inl err
      | Inr v \<Rightarrow>
          (case fill_row v q i [0..<nat n] BD of
             Inl err \<Rightarrow> Inl err
           | Inr BD' \<Rightarrow> fill_rows n e X q rest BD'))"

text \<open>
  Lines 253 to 264: the evaluation matrices \<open>B\<close> and \<open>D\<close>, which the function keeps
  local.
\<close>

definition evaluation_matrices :: "gauss_table \<Rightarrow> int \<Rightarrow> error + (matrix \<times> matrix) \<times> vector" where
  "evaluation_matrices gl n =
     (case get_e n of
        Inl err \<Rightarrow> Inl err
      | Inr e \<Rightarrow>
     (case chebpts2 n of
        Inl err \<Rightarrow> Inl err
      | Inr X \<Rightarrow>
     (case leggauss gl n of
        Inl err \<Rightarrow> Inl err
      | Inr (q, w) \<Rightarrow>
     (case zeros2 n n of
        Inl err \<Rightarrow> Inl err
      | Inr B \<Rightarrow>
     (case zeros2 n n of
        Inl err \<Rightarrow> Inl err
      | Inr D \<Rightarrow>
     (case fill_rows n e X q [0..<nat n] (B, D) of
        Inl err \<Rightarrow> Inl err
      | Inr BD \<Rightarrow> Inr (BD, w)))))))"

text \<open>
  \<^verbatim>\<open>
    K = np.einsum('iq, q, jq', D, w, D)
    M = np.einsum('iq, q, jq', B, w, B)
    A = K + M
    return K, M, A
  \<close>
\<close>

definition compute_one_dimensional_matrices ::
  "gauss_table \<Rightarrow> int \<Rightarrow> error + matrix \<times> matrix \<times> matrix" where
  "compute_one_dimensional_matrices gl n =
     (case evaluation_matrices gl n of
        Inl err \<Rightarrow> Inl err
      | Inr ((B, D), w) \<Rightarrow>
     (case einsum_iq_q_jq D w D of
        Inl err \<Rightarrow> Inl err
      | Inr K \<Rightarrow>
     (case einsum_iq_q_jq B w B of
        Inl err \<Rightarrow> Inl err
      | Inr M \<Rightarrow> Inr (K, M, mat_add K M))))"

subsection \<open>Error in one dimension (lines 300 to 313)\<close>

definition exact_one_d :: "real \<Rightarrow> real" where
  "exact_one_d x = cos (pi * x)"

definition rhs_one_d :: "real \<Rightarrow> real" where
  "rhs_one_d x = cos (pi * x) * (1 + pi\<^sup>2)"

text \<open>
  \<^verbatim>\<open>
  def compute_error_one_d(n, exact, rhs):
      # Replace this with you implementation
      error = 1/n
      return error
  \<close>
  The argument \<open>n\<close> is a Python integer, as the notebook's loop over
  \<open>range(10, 20)\<close> passes it; Python's true division raises ZeroDivisionError on a zero
  divisor.
\<close>

definition compute_error_one_d :: "int \<Rightarrow> (real \<Rightarrow> real) \<Rightarrow> (real \<Rightarrow> real) \<Rightarrow> error + real" where
  "compute_error_one_d n exact rhs =
     (if n = 0 then Inl ZeroDivisionError else Inr (1 / real_of_int n))"

subsection \<open>Conjugate gradient (lines 371 to 374)\<close>

text \<open>
  Arrays are objects: the caller and \<open>cg\<close> hold references, and \<open>x0.copy()\<close> allocates.
  The store maps the addresses allocated so far, all below \<open>next_addr\<close>, to array
  contents.
\<close>

type_synonym addr = nat

record store =
  next_addr :: addr
  cells :: "addr \<rightharpoonup> vector"

definition store_ok :: "store \<Rightarrow> bool" where
  "store_ok s \<longleftrightarrow> dom (cells s) = {..<next_addr s}"

definition alloc :: "store \<Rightarrow> vector \<Rightarrow> addr \<times> store" where
  "alloc s v = (next_addr s, s\<lparr>next_addr := Suc (next_addr s), cells := (cells s)(next_addr s \<mapsto> v)\<rparr>)"

definition ndarray_copy :: "store \<Rightarrow> addr \<Rightarrow> error + addr \<times> store" where
  \<comment> \<open>\<open>a.copy()\<close>; a reference that is no array has no such method\<close>
  "ndarray_copy s a =
     (case cells s a of None \<Rightarrow> Inl AttributeError | Some v \<Rightarrow> Inr (alloc s v))"

text \<open>A callable on arrays may read and write the store and returns a reference.\<close>

type_synonym matvec_fn = "store \<Rightarrow> addr \<Rightarrow> error + addr \<times> store"

text \<open>
  \<^verbatim>\<open>
  def cg(matvec, b, x0, tol=1e-05, maxiter=10000):
      # inside this function, you can call matvec(b) to evaluate the matrix vector
      x = x0.copy()
      return x
  \<close>
\<close>

definition cg :: "store \<Rightarrow> matvec_fn \<Rightarrow> addr \<Rightarrow> addr \<Rightarrow> real \<Rightarrow> int \<Rightarrow> error + addr \<times> store" where
  "cg s matvec b x0 tol maxiter =
     (case ndarray_copy s x0 of
        Inl err \<Rightarrow> Inl err
      | Inr (x, s') \<Rightarrow> Inr (x, s'))"

text \<open>
  The operator of the notebook's text, \<^verbatim>\<open>def matvec(src): return A.dot(src)\<close>,
  and the residual norm \<open>\<parallel>b - matvec(x)\<parallel>\<close> that the solver is asked to bring below the
  tolerance.
\<close>

definition dot :: "matrix \<Rightarrow> vector \<Rightarrow> vector" where
  "dot A v = map (\<lambda>row. \<Sum>j \<leftarrow> [0..<length v]. row ! j * v ! j) A"

definition matvec_dot :: "matrix \<Rightarrow> matvec_fn" where
  "matvec_dot A s src =
     (case cells s src of None \<Rightarrow> Inl AttributeError | Some v \<Rightarrow> Inr (alloc s (dot A v)))"

definition norm2 :: "vector \<Rightarrow> real" where
  "norm2 v = sqrt (\<Sum>a \<leftarrow> v. a\<^sup>2)"

definition residual_norm :: "store \<Rightarrow> matvec_fn \<Rightarrow> addr \<Rightarrow> addr \<Rightarrow> error + real" where
  "residual_norm s matvec b x =
     (case matvec s x of
        Inl err \<Rightarrow> Inl err
      | Inr (y, s') \<Rightarrow>
          (case (cells s' b, cells s' y) of
             (Some bv, Some yv) \<Rightarrow> Inr (norm2 (map2 (-) bv yv))
           | _ \<Rightarrow> Inl AttributeError))"

subsection \<open>Notions used to state the properties\<close>

text \<open>
  The Lagrange cardinal function of node \<open>j\<close> by its product formula, and the matrix
  \<open>\<Sum>q. F i q * w q * F j q\<close> that the \<open>einsum\<close> call builds from evaluations \<open>F\<close>.
\<close>

definition cardinal :: "vector \<Rightarrow> nat \<Rightarrow> real \<Rightarrow> real" where
  "cardinal x j t = (\<Prod>k \<in> {..<length x} - {j}. (t - x ! k) / (x ! j - x ! k))"

definition gram :: "(nat \<Rightarrow> nat \<Rightarrow> real) \<Rightarrow> (nat \<Rightarrow> real) \<Rightarrow> nat \<Rightarrow> matrix" where
  "gram F w n = map (\<lambda>i. map (\<lambda>j. \<Sum>q<n. F i q * w q * F j q) [0..<n]) [0..<n]"

text \<open>
  \<open>np.polyint\<close>, the antiderivative with constant term 0 on coefficients
  (\<^verbatim>\<open>p / arange(len(p), 0, -1)\<close> followed by 0), and with it the integral of a
  polynomial over \<open>[-1, 1]\<close>, the domain of the problem.
\<close>

definition polyint :: "poly1d \<Rightarrow> poly1d" where
  "polyint p = poly1d (map (\<lambda>k. p ! k / real (length p - k)) [0..<length p] @ [0])"

definition integral_m11 :: "poly1d \<Rightarrow> real" where
  "integral_m11 p = polyval (polyint p) 1 - polyval (polyint p) (- 1)"


subsection \<open>Concrete inputs\<close>

text \<open>
  The two-point Gauss-Legendre rule, points \<open>- sqrt (1/3)\<close> and \<open>sqrt (1/3)\<close> with
  weights 1.
\<close>

definition gauss2 :: gauss_table where
  "gauss2 deg k = (if k = 0 then (- sqrt (1 / 3), 1) else (sqrt (1 / 3), 1))"

text \<open>
  The four-point Gauss-Legendre rule in the order \<open>leggauss(4)\<close> returns it, points
  ascending.
\<close>

definition gauss4 :: gauss_table where
  "gauss4 deg k =
     (if k = 0 then (- sqrt (3/7 + 2/7 * sqrt (6/5)), (18 - sqrt 30) / 36)
      else if k = 1 then (- sqrt (3/7 - 2/7 * sqrt (6/5)), (18 + sqrt 30) / 36)
      else if k = 2 then (sqrt (3/7 - 2/7 * sqrt (6/5)), (18 + sqrt 30) / 36)
      else (sqrt (3/7 + 2/7 * sqrt (6/5)), (18 - sqrt 30) / 36))"

text \<open>
  A store holding the arrays \<open>b = [1]\<close> at address 0 and \<open>x0 = [0]\<close> at address 1.
\<close>

definition s0 :: store where
  "s0 = \<lparr>next_addr = 2, cells = [0 \<mapsto> [1], 1 \<mapsto> [0]]\<rparr>"

section \<open>Polynomials as coefficient arrays\<close>

text \<open>
  Evaluation commutes with the operations of \<open>poly1d\<close>: trimming, sum, product and
  division by a scalar.
\<close>

lemma foldl_horner:
  "foldl (\<lambda>y pv. y * x + pv) a p = a * x ^ length p + foldl (\<lambda>y pv. y * x + pv) 0 p"
  for x a :: real
proof (induction p arbitrary: a)
  case Nil
  then show ?case by simp
next
  case (Cons c p)
  have "foldl (\<lambda>y pv. y * x + pv) (a * x + c) p
        = (a * x + c) * x ^ length p + foldl (\<lambda>y pv. y * x + pv) 0 p"
    by (rule Cons.IH)
  moreover have "foldl (\<lambda>y pv. y * x + pv) c p
        = c * x ^ length p + foldl (\<lambda>y pv. y * x + pv) 0 p"
    by (rule Cons.IH)
  ultimately show ?case
    by (simp only: foldl_Cons list.size length_Cons power_Suc mult_zero_left add_0) (simp add: algebra_simps)
qed

lemma polyval_Nil [simp]: "polyval [] x = 0"
  by (simp add: polyval_def)

lemma polyval_Cons: "polyval (c # p) x = c * x ^ length p + polyval p x"
  using foldl_horner [of x c p] by (simp add: polyval_def)

lemma polyval_append: "polyval (a @ b) x = polyval a x * x ^ length b + polyval b x"
  by (induction a) (simp_all add: polyval_Cons algebra_simps power_add)

lemma polyval_replicate_0 [simp]: "polyval (replicate n 0) x = 0"
  by (induction n) (simp_all add: polyval_Cons)

lemma polyval_dropWhile: "polyval (dropWhile (\<lambda>a. a = 0) c) x = polyval c x"
  by (induction c) (simp_all add: polyval_Cons)

lemma polyval_poly1d [simp]: "polyval (poly1d c) x = polyval c x"
proof (cases "dropWhile (\<lambda>a. a = 0) c")
  case Nil
  have "polyval (poly1d c) x = 0"
    unfolding poly1d_def Nil by (simp add: polyval_Cons)
  moreover have "polyval c x = 0"
    using polyval_dropWhile [of c x] unfolding Nil by simp
  ultimately show ?thesis by simp
next
  case (Cons a as)
  have "poly1d c = dropWhile (\<lambda>a. a = 0) c"
    unfolding poly1d_def Cons by simp
  then show ?thesis
    by (simp only: polyval_dropWhile)
qed

lemma polyval_map2_add:
  "length a = length b \<Longrightarrow> polyval (map2 (+) a b) x = polyval a x + polyval b x"
proof (induction a arbitrary: b)
  case Nil
  then show ?case by simp
next
  case (Cons c a)
  then obtain d b' where b: "b = d # b'" "length a = length b'"
    by (cases b) auto
  with Cons.IH [of b'] show ?case
    by (simp add: polyval_Cons algebra_simps)
qed

lemma polyval_polyadd [simp]: "polyval (polyadd a b) x = polyval a x + polyval b x"
proof -
  have "length (replicate (length b - length a) (0::real) @ a)
        = length (replicate (length a - length b) (0::real) @ b)"
    by simp
  from polyval_map2_add [OF this] show ?thesis
    by (simp add: polyadd_def polyval_append)
qed

lemma polyval_map_scale: "polyval (map (\<lambda>c. a * c) v) x = a * polyval v x"
  by (induction v) (simp_all add: polyval_Cons algebra_simps)

lemma polyval_map_div: "polyval (map (\<lambda>a. a / c) p) x = polyval p x / c"
  by (induction p) (simp_all add: polyval_Cons add_divide_distrib)

lemma polyval_convolve [simp]: "polyval (convolve a v) x = polyval a x * polyval v x"
  by (induction a) (simp_all add: polyval_Cons polyval_append polyval_map_scale algebra_simps)

lemma polyval_poly_mul [simp]: "polyval (poly_mul p1 p2) x = polyval p1 x * polyval p2 x"
  by (simp add: poly_mul_def)

lemma polyval_poly_add [simp]: "polyval (poly_add p1 p2) x = polyval p1 x + polyval p2 x"
  by (simp add: poly_add_def)

lemma polyval_poly_div_scalar [simp]: "polyval (poly_div_scalar p c) x = polyval p x / c"
  by (simp add: poly_div_scalar_def polyval_map_div)

lemma polyval_linear: "polyval [a, b] x = a * x + b"
  by (simp add: polyval_Cons)

subsection \<open>What \<open>lagrange\<close> evaluates to\<close>

text \<open>
  The polynomial returned for nodes \<open>x\<close> and values \<open>w\<close> evaluates to
  \<open>\<Sum>j. w[j] * cardinal x j t\<close>, and on distinct nodes the cardinal functions are 1 at
  their own node and 0 at the others.
\<close>

lemma polyval_term_fold:
  "polyval (fold (\<lambda>k pt. if k = j then pt
                  else poly_mul pt (poly_div_scalar (poly1d [1, - (x ! k)]) (x ! j - x ! k)))
          ks p0) t
   = polyval p0 t * (\<Prod>k \<leftarrow> filter (\<lambda>k. k \<noteq> j) ks. (t - x ! k) / (x ! j - x ! k))"
  by (induction ks arbitrary: p0) (simp_all add: polyval_linear)

lemma prod_list_filter_upt:
  "(\<Prod>k \<leftarrow> filter (\<lambda>k. k \<noteq> j) [0..<n]. f k) = (\<Prod>k \<in> {..<n} - {j}. f k)"
  for f :: "nat \<Rightarrow> real"
proof -
  have "distinct (filter (\<lambda>k. k \<noteq> j) [0..<n])" by simp
  moreover have "set (filter (\<lambda>k. k \<noteq> j) [0..<n]) = {..<n} - {j}" by auto
  ultimately show ?thesis
    using prod.distinct_set_conv_list [of "filter (\<lambda>k. k \<noteq> j) [0..<n]" f] by simp
qed

lemma polyval_lagrange_term:
  "polyval (lagrange_term x w j) t = w ! j * cardinal x j t"
  by (simp add: lagrange_term_def polyval_term_fold prod_list_filter_upt cardinal_def
      polyval_Cons)

lemma polyval_sum_fold:
  "polyval (fold (\<lambda>j p. poly_add p (g j)) js p0) t
   = polyval p0 t + (\<Sum>j \<leftarrow> js. polyval (g j) t)"
  by (induction js arbitrary: p0) simp_all

lemma polyval_lagrange:
  "lagrange x w = Inr p \<Longrightarrow> polyval p t = (\<Sum>j<length x. w ! j * cardinal x j t)"
  by (auto simp add: lagrange_def polyval_sum_fold polyval_lagrange_term polyval_Cons
      sum_list_distinct_conv_sum_set atLeast0LessThan split: if_splits)

lemma cardinal_at_node:
  assumes d: "distinct x" and j: "j < length x" and m: "m < length x"
  shows "cardinal x j (x ! m) = (if j = m then 1 else 0)"
proof (cases "j = m")
  case True
  have "\<And>k. k \<in> {..<length x} - {j} \<Longrightarrow> (x ! j - x ! k) / (x ! j - x ! k) = 1"
    using d j by (simp add: nth_eq_iff_index_eq)
  then show ?thesis
    using True by (simp add: cardinal_def)
next
  case False
  have "m \<in> {..<length x} - {j}" using m False by simp
  moreover have "(x ! m - x ! m) / (x ! j - x ! m) = 0" by simp
  ultimately have "(\<Prod>k \<in> {..<length x} - {j}. (x ! m - x ! k) / (x ! j - x ! k)) = 0"
    by (meson finite_Diff finite_lessThan prod_zero)
  then show ?thesis
    using False by (simp add: cardinal_def)
qed

subsection \<open>Degrees and roots\<close>

text \<open>
  The polynomial returned for \<open>n\<close> nodes has at most \<open>n\<close> coefficients, and a
  coefficient array that vanishes at as many points as it has entries vanishes everywhere.
\<close>

lemma length_poly1d_le: "length (poly1d c) \<le> max 1 (length c)"
proof (cases "dropWhile (\<lambda>a. a = 0) c")
  case Nil
  then show ?thesis unfolding poly1d_def Nil by simp
next
  case (Cons a as)
  have "length (dropWhile (\<lambda>a. a = 0) c) \<le> length c"
    by (rule length_dropWhile_le)
  then show ?thesis unfolding poly1d_def Cons by simp
qed

lemma length_poly1d_pos: "0 < length (poly1d c)"
proof (cases "dropWhile (\<lambda>a. a = 0) c")
  case Nil
  then show ?thesis unfolding poly1d_def Nil by simp
next
  case (Cons a as)
  then show ?thesis unfolding poly1d_def Cons by simp
qed

lemma length_polyadd [simp]: "length (polyadd a b) = max (length a) (length b)"
  by (simp add: polyadd_def)

lemma length_convolve_le:
  "v \<noteq> [] \<Longrightarrow> length (convolve a v) \<le> length a + length v - 1"
  by (induction a) auto

lemma length_poly_mul_linear:
  assumes "0 < length pt" and "length lin \<le> 2" and "lin \<noteq> []"
  shows "length (poly_mul pt lin) \<le> Suc (length pt)"
proof -
  have "length (convolve pt lin) \<le> length pt + length lin - 1"
    using assms(3) by (rule length_convolve_le)
  then have "length (convolve pt lin) \<le> Suc (length pt)"
    using assms(2) by simp
  moreover have "length (poly1d (convolve pt lin)) \<le> max 1 (length (convolve pt lin))"
    by (rule length_poly1d_le)
  ultimately show ?thesis
    by (simp add: poly_mul_def)
qed

lemma length_linear_factor:
  "length (poly_div_scalar (poly1d [1, b]) c) \<le> 2 \<and> poly_div_scalar (poly1d [1, b]) c \<noteq> []"
proof -
  have "poly1d [1, b] = [1, b]" by (simp add: poly1d_def)
  then have "length (poly_div_scalar (poly1d [1, b]) c) \<le> max 1 (length [1 / c, b / c])"
    using length_poly1d_le [of "[1 / c, b / c]"] by (simp add: poly_div_scalar_def)
  moreover have "0 < length (poly_div_scalar (poly1d [1, b]) c)"
    unfolding poly_div_scalar_def by (rule length_poly1d_pos)
  ultimately show ?thesis by auto
qed

lemma length_term_fold:
  assumes "0 < length p0"
  shows "0 < length (fold (\<lambda>k pt. if k = j then pt
                  else poly_mul pt (poly_div_scalar (poly1d [1, - (x ! k)]) (x ! j - x ! k)))
          ks p0)
       \<and> length (fold (\<lambda>k pt. if k = j then pt
                  else poly_mul pt (poly_div_scalar (poly1d [1, - (x ! k)]) (x ! j - x ! k)))
          ks p0)
         \<le> length p0 + length (filter (\<lambda>k. k \<noteq> j) ks)"
  using assms
proof (induction ks arbitrary: p0)
  case Nil
  then show ?case by simp
next
  case (Cons k ks)
  show ?case
  proof (cases "k = j")
    case True
    then show ?thesis using Cons.IH [OF Cons.prems] by simp
  next
    case False
    let ?lin = "poly_div_scalar (poly1d [1, - (x ! k)]) (x ! j - x ! k)"
    have pos: "0 < length (poly_mul p0 ?lin)"
      unfolding poly_mul_def by (rule length_poly1d_pos)
    have le: "length (poly_mul p0 ?lin) \<le> Suc (length p0)"
      using length_poly_mul_linear [OF Cons.prems] length_linear_factor by blast
    from Cons.IH [OF pos] le False show ?thesis by simp
  qed
qed

lemma length_filter_ne_upt:
  "j < n \<Longrightarrow> length (filter (\<lambda>k. k \<noteq> j) [0..<n]) = n - 1"
proof -
  assume j: "j < n"
  have "distinct (filter (\<lambda>k. k \<noteq> j) [0..<n])" by simp
  then have "length (filter (\<lambda>k. k \<noteq> j) [0..<n]) = card (set (filter (\<lambda>k. k \<noteq> j) [0..<n]))"
    by (simp only: distinct_card)
  also have "set (filter (\<lambda>k. k \<noteq> j) [0..<n]) = {..<n} - {j}" by auto
  also have "card ({..<n} - {j}) = n - 1" using j by simp
  finally show ?thesis .
qed

lemma length_lagrange_term:
  assumes "j < length x"
  shows "0 < length (lagrange_term x w j) \<and> length (lagrange_term x w j) \<le> length x"
proof -
  have p: "0 < length (poly1d [w ! j])" by (rule length_poly1d_pos)
  have one: "length (poly1d [w ! j]) \<le> 1"
    using length_poly1d_le [of "[w ! j]"] by simp
  have flt: "length (filter (\<lambda>k. k \<noteq> j) [0..<length x]) = length x - 1"
    using assms by (rule length_filter_ne_upt)
  have "length (poly1d [w ! j]) + (length x - 1) \<le> length x"
    using one assms by linarith
  with length_term_fold [OF p, of j x "[0..<length x]"]
  show ?thesis
    unfolding lagrange_term_def flt by linarith
qed

lemma length_sum_fold:
  assumes "length p0 \<le> n" and "\<And>j. j \<in> set js \<Longrightarrow> length (g j) \<le> n" and "0 < n"
  shows "length (fold (\<lambda>j p. poly_add p (g j)) js p0) \<le> n"
  using assms
proof (induction js arbitrary: p0)
  case Nil
  then show ?case by simp
next
  case (Cons j js)
  have "length (poly_add p0 (g j)) \<le> max 1 (max (length p0) (length (g j)))"
    using length_poly1d_le [of "polyadd p0 (g j)"] by (simp add: poly_add_def)
  moreover have "length (g j) \<le> n" using Cons.prems(2) by simp
  ultimately have "length (poly_add p0 (g j)) \<le> n"
    using Cons.prems(1,3) by simp
  from Cons.IH [OF this] Cons.prems(2,3) show ?case by simp
qed

lemma length_lagrange:
  assumes "lagrange x w = Inr p" and "0 < length x"
  shows "length p \<le> length x"
proof -
  have p: "p = fold (\<lambda>j p. poly_add p (lagrange_term x w j)) [0..<length x] (poly1d [0])"
    using assms(1) by (simp add: lagrange_def split: if_splits)
  have "length (poly1d [0]) = 1"
    by (simp add: poly1d_def)
  then have "length (poly1d [0]) \<le> length x"
    using assms(2) by linarith
  moreover have "\<And>j. j \<in> set [0..<length x] \<Longrightarrow> length (lagrange_term x w j) \<le> length x"
    using length_lagrange_term by simp
  ultimately show ?thesis
    unfolding p using assms(2) by (rule length_sum_fold)
qed

text \<open>Horner evaluation as a sum of monomials, lowest power first.\<close>

lemma polyval_as_sum:
  "polyval p x = (\<Sum>i<length p. rev p ! i * x ^ i)"
proof (induction p)
  case Nil
  then show ?case by simp
next
  case (Cons c p)
  have "(\<Sum>i<Suc (length p). rev (c # p) ! i * x ^ i)
        = (\<Sum>i<length p. rev (c # p) ! i * x ^ i) + rev (c # p) ! length p * x ^ length p"
    by simp
  also have "(\<Sum>i<length p. rev (c # p) ! i * x ^ i) = (\<Sum>i<length p. rev p ! i * x ^ i)"
    by (rule sum.cong) (simp_all add: nth_append)
  also have "rev (c # p) ! length p = c"
    by (simp add: nth_append)
  finally show ?case
    using Cons.IH by (simp add: polyval_Cons)
qed

lemma polyval_roots_zero:
  assumes len: "length p \<le> card S" and fin: "finite S"
    and roots: "\<And>z. z \<in> S \<Longrightarrow> polyval p z = 0"
  shows "polyval p x = 0"
proof (cases "p = []")
  case True
  then show ?thesis by simp
next
  case False
  define n where "n = length p - 1"
  define c where "c i = (if i < length p then rev p ! i else 0)" for i
  have lp: "length p = Suc n" using False by (simp add: n_def)
  have ev: "polyval p z = (\<Sum>i\<le>n. c i * z ^ i)" for z
    unfolding polyval_as_sum lp c_def
    by (rule sum.cong) (auto simp add: lp)
  show ?thesis
  proof (cases "\<exists>k\<le>n. c k \<noteq> 0")
    case True
    then obtain k where k: "c k \<noteq> 0" "k \<le> n" by blast
    have f: "finite {z. (\<Sum>i\<le>n. c i * z ^ i) = 0}"
      and cd: "card {z. (\<Sum>i\<le>n. c i * z ^ i) = 0} \<le> n"
      using polyfun_rootbound [of c k n] k by simp_all
    have "S \<subseteq> {z. (\<Sum>i\<le>n. c i * z ^ i) = 0}"
      using roots ev by auto
    then have "card S \<le> card {z. (\<Sum>i\<le>n. c i * z ^ i) = 0}"
      using f by (rule card_mono [rotated])
    with cd len lp show ?thesis by simp
  next
    case False
    then have "\<And>i. i \<le> n \<Longrightarrow> c i = 0" by blast
    then show ?thesis unfolding ev by simp
  qed
qed

section \<open>The loops of \<open>compute_one_dimensional_matrices\<close>\<close>

text \<open>
  The loops that write single entries fill whole rows: \<open>get_e\<close> builds the unit rows,
  and for \<open>n \<ge> 2\<close> the call succeeds with \<open>B[i,\<alpha>]\<close> the cardinal function of node
  \<open>i\<close> at the quadrature point \<open>\<alpha>\<close>, \<open>D[i,\<alpha>]\<close> its central difference there,
  and \<open>K\<close>, \<open>M\<close> the matrices \<open>gram\<close> of \<open>D\<close> and \<open>B\<close>.
\<close>

lemma fold_update_upt:
  "m \<le> length r \<Longrightarrow>
   fold (\<lambda>i r. r[i := g i (r ! i)]) [0..<m] r
   = map (\<lambda>i. if i < m then g i (r ! i) else r ! i) [0..<length r]"
proof (induction m)
  case 0
  then show ?case by (simp add: map_nth)
next
  case (Suc m)
  then have IH: "fold (\<lambda>i r. r[i := g i (r ! i)]) [0..<m] r
                 = map (\<lambda>i. if i < m then g i (r ! i) else r ! i) [0..<length r]"
    and m: "m < length r" by simp_all
  show ?case
    unfolding upt_Suc_append [OF le0] fold_append comp_def IH
    using m by (auto intro!: nth_equalityI simp add: nth_list_update less_Suc_eq)
qed

lemma get_e_ok:
  "0 \<le> n \<Longrightarrow> get_e n = Inr (map (\<lambda>i. (replicate (nat n) 0)[i := 1]) [0..<nat n])"
  using fold_update_upt [of "nat n" "replicate (nat n) (replicate (nat n) (0::real))" "\<lambda>i r. r[i := 1]"]
  by (simp add: get_e_def zeros2_def)

lemma fill_row_ok:
  assumes "\<And>a. a \<in> set alphas \<Longrightarrow> a < length q" and "i < length B" and "i < length D"
  shows "fill_row v q i alphas (B, D)
         = Inr (B[i := fold (\<lambda>a r. r[a := polyval v (q ! a)]) alphas (B ! i)],
                D[i := fold (\<lambda>a r. r[a := derivative (polyval v) (q ! a)]) alphas (D ! i)])"
  using assms
proof (induction alphas arbitrary: B D)
  case Nil
  then show ?case by simp
next
  case (Cons a alphas)
  have a: "a < length q" using Cons.prems(1) by simp
  have rest: "\<And>a. a \<in> set alphas \<Longrightarrow> a < length q" using Cons.prems(1) by simp
  let ?B = "B[i := (B ! i)[a := polyval v (q ! a)]]"
  let ?D = "D[i := (D ! i)[a := derivative (polyval v) (q ! a)]]"
  have "fill_row v q i alphas (?B, ?D)
        = Inr (?B[i := fold (\<lambda>a r. r[a := polyval v (q ! a)]) alphas (?B ! i)],
               ?D[i := fold (\<lambda>a r. r[a := derivative (polyval v) (q ! a)]) alphas (?D ! i)])"
    using Cons.prems(2,3) by (intro Cons.IH rest) simp_all
  then show ?case
    using a Cons.prems(2,3) by simp
qed

lemma fill_row_upt:
  assumes "length q = n" and "i < length B" and "i < length D"
    and "length (B ! i) = n" and "length (D ! i) = n"
  shows "fill_row v q i [0..<n] (B, D)
         = Inr (B[i := map (\<lambda>a. polyval v (q ! a)) [0..<n]],
                D[i := map (\<lambda>a. derivative (polyval v) (q ! a)) [0..<n]])"
proof -
  have "fold (\<lambda>a r. r[a := polyval v (q ! a)]) [0..<n] (B ! i)
        = map (\<lambda>a. polyval v (q ! a)) [0..<n]"
    using fold_update_upt [of n "B ! i" "\<lambda>a r. polyval v (q ! a)"] assms(4) by simp
  moreover have "fold (\<lambda>a r. r[a := derivative (polyval v) (q ! a)]) [0..<n] (D ! i)
        = map (\<lambda>a. derivative (polyval v) (q ! a)) [0..<n]"
    using fold_update_upt [of n "D ! i" "\<lambda>a r. derivative (polyval v) (q ! a)"] assms(5) by simp
  ultimately show ?thesis
    using fill_row_ok [of "[0..<n]" q i B D v] assms(1,2,3) by simp
qed

lemma fill_rows_ok:
  assumes "\<And>i. i \<in> set is \<Longrightarrow> get_basis n e X i = Inr (bs i)"
    and "\<And>i. i \<in> set is \<Longrightarrow> i < length B"
    and "length D = length B"
    and "length q = nat n"
    and "\<And>r. r \<in> set B \<Longrightarrow> length r = nat n"
    and "\<And>r. r \<in> set D \<Longrightarrow> length r = nat n"
  shows "fill_rows n e X q is (B, D)
         = Inr (fold (\<lambda>i B. B[i := map (\<lambda>a. polyval (bs i) (q ! a)) [0..<nat n]]) is B,
                fold (\<lambda>i D. D[i := map (\<lambda>a. derivative (polyval (bs i)) (q ! a)) [0..<nat n]]) is D)"
  using assms
proof (induction "is" arbitrary: B D)
  case Nil
  then show ?case by simp
next
  case (Cons i "is")
  let ?B = "B[i := map (\<lambda>a. polyval (bs i) (q ! a)) [0..<nat n]]"
  let ?D = "D[i := map (\<lambda>a. derivative (polyval (bs i)) (q ! a)) [0..<nat n]]"
  have i: "i < length B" "i < length D"
    using Cons.prems(2,3) by simp_all
  have gb: "get_basis n e X i = Inr (bs i)" using Cons.prems(1) by simp
  have row: "fill_row (bs i) q i [0..<nat n] (B, D) = Inr (?B, ?D)"
    using i Cons.prems(4,5,6) by (intro fill_row_upt) simp_all
  have setB: "\<And>r. r \<in> set ?B \<Longrightarrow> length r = nat n"
    using Cons.prems(5) by (auto dest!: set_update_subset_insert [THEN subsetD])
  have setD: "\<And>r. r \<in> set ?D \<Longrightarrow> length r = nat n"
    using Cons.prems(6) by (auto dest!: set_update_subset_insert [THEN subsetD])
  have "fill_rows n e X q is (?B, ?D)
        = Inr (fold (\<lambda>i B. B[i := map (\<lambda>a. polyval (bs i) (q ! a)) [0..<nat n]]) is ?B,
               fold (\<lambda>i D. D[i := map (\<lambda>a. derivative (polyval (bs i)) (q ! a)) [0..<nat n]]) is ?D)"
    using Cons.prems(1,2,3,4) setB setD by (intro Cons.IH) simp_all
  then show ?case
    by (simp add: gb row)
qed

lemma fold_set_rows:
  "fold (\<lambda>i B. B[i := f i]) [0..<m] (replicate m r) = map f [0..<m]"
  using fold_update_upt [of m "replicate m r" "\<lambda>i r. f i"] by simp

lemma chebpts2_ok:
  assumes n: "2 \<le> n"
  shows "\<exists>X. chebpts2 n = Inr X \<and> length X = nat n \<and> distinct X"
proof -
  define c where "c = 0.5 * pi / real_of_int (n - 1)"
  define f where "f k = sin (c * real_of_int (- n + 1 + 2 * int k))" for k
  have cpos: "0 < c" using n by (simp add: c_def)
  have half: "c * real_of_int (n - 1) = pi / 2"
  proof -
    have "real_of_int (n - 1) \<noteq> 0" using n by simp
    moreover have "\<And>m::real. m \<noteq> 0 \<Longrightarrow> 0.5 * pi / m * m = pi / 2" by simp
    ultimately show ?thesis unfolding c_def by blast
  qed
  have lo: "- (pi / 2) \<le> c * real_of_int (- n + 1 + 2 * int k)" for k
  proof -
    have "real_of_int (- (n - 1)) \<le> real_of_int (- n + 1 + 2 * int k)" by simp
    then have "c * real_of_int (- (n - 1)) \<le> c * real_of_int (- n + 1 + 2 * int k)"
      using cpos by (simp only: mult_le_cancel_left_pos)
    moreover have "c * real_of_int (- (n - 1)) = - (pi / 2)"
      using half by (simp only: of_int_minus mult_minus_right)
    ultimately show ?thesis by simp
  qed
  have hi: "c * real_of_int (- n + 1 + 2 * int k) \<le> pi / 2" if "k < nat n" for k
  proof -
    have "- n + 1 + 2 * int k \<le> n - 1" using that by linarith
    then have "real_of_int (- n + 1 + 2 * int k) \<le> real_of_int (n - 1)"
      by (simp only: of_int_le_iff)
    then have "c * real_of_int (- n + 1 + 2 * int k) \<le> c * real_of_int (n - 1)"
      using cpos by (simp only: mult_le_cancel_left_pos)
    then show ?thesis using half by simp
  qed
  have mono: "f k < f l" if "k < l" "l < nat n" for k l
  proof -
    have "real_of_int (- n + 1 + 2 * int k) < real_of_int (- n + 1 + 2 * int l)"
      using that by simp
    then have "c * real_of_int (- n + 1 + 2 * int k) < c * real_of_int (- n + 1 + 2 * int l)"
      using cpos by (simp only: mult_less_cancel_left_pos)
    then show ?thesis
      unfolding f_def using lo [of k] hi [OF that(2)] by (intro sin_monotone_2pi)
  qed
  have inj: "inj_on f (set [0..<nat n])"
  proof (rule inj_onI)
    fix k l assume k: "k \<in> set [0..<nat n]" and l: "l \<in> set [0..<nat n]" and e: "f k = f l"
    show "k = l"
    proof (rule ccontr)
      assume "k \<noteq> l"
      then consider "k < l" | "l < k" by linarith
      then show False
      proof cases
        case 1
        then show ?thesis using mono [of k l] l e by simp
      next
        case 2
        then show ?thesis using mono [of l k] k e by simp
      qed
    qed
  qed
  have "chebpts2 n = Inr (map f [0..<nat n])"
    using n by (simp add: chebpts2_def arange2_def f_def c_def comp_def)
  moreover have "distinct (map f [0..<nat n])"
    using inj by (simp add: distinct_map)
  ultimately show ?thesis by simp
qed

lemma unit_row_sum:
  assumes "i < n"
  shows "(\<Sum>j<n. (replicate n 0)[i := 1::real] ! j * f j) = f i"
proof -
  have "(\<Sum>j<n. (replicate n 0)[i := 1::real] ! j * f j) = (\<Sum>j<n. if j = i then f j else 0)"
    by (rule sum.cong) (simp_all add: nth_list_update)
  also have "\<dots> = f i"
    using assms by simp
  finally show ?thesis .
qed

lemma get_basis_ok:
  assumes n: "0 \<le> n" and e: "get_e n = Inr e" and X: "length X = nat n" and i: "i < nat n"
  shows "\<exists>p. get_basis n e X i = Inr p \<and> polyval p = cardinal X i
             \<and> length p \<le> nat n"
proof -
  have e': "e = map (\<lambda>i. (replicate (nat n) 0)[i := 1]) [0..<nat n]"
    using get_e_ok [OF n] e by simp
  have row: "e ! i = (replicate (nat n) 0)[i := 1]"
    using i by (simp add: e')
  have len: "length e = nat n" by (simp add: e')
  obtain p where p: "lagrange X (e ! i) = Inr p"
    using X by (simp add: lagrange_def row)
  have "polyval p t = cardinal X i t" for t
    using polyval_lagrange [OF p, of t] unit_row_sum [OF i, of "\<lambda>j. cardinal X j t"]
    by (simp add: row X)
  then have "polyval p = cardinal X i" by (rule ext)
  moreover have "length p \<le> nat n"
    using length_lagrange [OF p] X i by simp
  ultimately show ?thesis
    using p i len by (simp add: get_basis_def)
qed

lemma evaluation_matrices_ok:
  assumes n: "2 \<le> n" and X: "chebpts2 n = Inr X"
  shows "evaluation_matrices gl n
         = Inr ((map (\<lambda>i. map (\<lambda>a. cardinal X i (fst (gl n a))) [0..<nat n]) [0..<nat n],
                 map (\<lambda>i. map (\<lambda>a. derivative (cardinal X i) (fst (gl n a))) [0..<nat n]) [0..<nat n]),
                map (\<lambda>k. snd (gl n k)) [0..<nat n])"
proof -
  define q where "q = map (\<lambda>k. fst (gl n k)) [0..<nat n]"
  define w where "w = map (\<lambda>k. snd (gl n k)) [0..<nat n]"
  define e where "e = map (\<lambda>i. (replicate (nat n) (0::real))[i := 1]) [0..<nat n]"
  define Z where "Z = replicate (nat n) (replicate (nat n) (0::real))"
  have n0: "0 \<le> n" using n by simp
  have e: "get_e n = Inr e" using get_e_ok [OF n0] by (simp add: e_def)
  have lenX: "length X = nat n" using chebpts2_ok [OF n] X by auto
  have lg: "leggauss gl n = Inr (q, w)" using n by (simp add: leggauss_def q_def w_def)
  have z: "zeros2 n n = Inr Z" using n by (simp add: zeros2_def Z_def)
  have "\<forall>i. \<exists>p. i < nat n \<longrightarrow> get_basis n e X i = Inr p \<and> polyval p = cardinal X i"
    using get_basis_ok [OF n0 e lenX] by blast
  then obtain bs where bs: "\<And>i. i < nat n \<Longrightarrow> get_basis n e X i = Inr (bs i)"
    and ev: "\<And>i. i < nat n \<Longrightarrow> polyval (bs i) = cardinal X i"
    by metis
  have "fill_rows n e X q [0..<nat n] (Z, Z)
        = Inr (fold (\<lambda>i B. B[i := map (\<lambda>a. polyval (bs i) (q ! a)) [0..<nat n]]) [0..<nat n] Z,
               fold (\<lambda>i D. D[i := map (\<lambda>a. derivative (polyval (bs i)) (q ! a)) [0..<nat n]]) [0..<nat n] Z)"
    by (rule fill_rows_ok) (simp_all add: bs Z_def q_def)
  also have "fold (\<lambda>i B. B[i := map (\<lambda>a. polyval (bs i) (q ! a)) [0..<nat n]]) [0..<nat n] Z
             = map (\<lambda>i. map (\<lambda>a. polyval (bs i) (q ! a)) [0..<nat n]) [0..<nat n]"
    unfolding Z_def by (rule fold_set_rows)
  also have "\<dots> = map (\<lambda>i. map (\<lambda>a. cardinal X i (fst (gl n a))) [0..<nat n]) [0..<nat n]"
    by (auto simp add: ev q_def)
  also have "fold (\<lambda>i D. D[i := map (\<lambda>a. derivative (polyval (bs i)) (q ! a)) [0..<nat n]]) [0..<nat n] Z
             = map (\<lambda>i. map (\<lambda>a. derivative (polyval (bs i)) (q ! a)) [0..<nat n]) [0..<nat n]"
    unfolding Z_def by (rule fold_set_rows)
  also have "\<dots> = map (\<lambda>i. map (\<lambda>a. derivative (cardinal X i) (fst (gl n a))) [0..<nat n]) [0..<nat n]"
    by (auto simp add: ev q_def)
  finally show ?thesis
    by (simp add: evaluation_matrices_def e X lg z w_def)
qed

lemma einsum_ok:
  "einsum_iq_q_jq (map (\<lambda>i. map (F i) [0..<n]) [0..<n]) (map w [0..<n])
                  (map (\<lambda>i. map (F i) [0..<n]) [0..<n])
   = Inr (gram F w n)"
proof -
  have "(\<Sum>q \<leftarrow> [0..<n]. map (\<lambda>i. map (F i) [0..<n]) [0..<n] ! i ! q * map w [0..<n] ! q
                          * map (\<lambda>i. map (F i) [0..<n]) [0..<n] ! j ! q)
        = (\<Sum>q<n. F i q * w q * F j q)" if "i < n" "j < n" for i j
  proof -
    have "(\<Sum>q \<leftarrow> [0..<n]. map (\<lambda>i. map (F i) [0..<n]) [0..<n] ! i ! q * map w [0..<n] ! q
                          * map (\<lambda>i. map (F i) [0..<n]) [0..<n] ! j ! q)
          = (\<Sum>q \<leftarrow> [0..<n]. F i q * w q * F j q)"
      using that by (intro arg_cong [where f = sum_list] map_cong) simp_all
    then show ?thesis
      by (simp add: sum_list_distinct_conv_sum_set atLeast0LessThan)
  qed
  then show ?thesis
    by (auto simp add: einsum_iq_q_jq_def gram_def)
qed

lemma compute_ok:
  assumes n: "2 \<le> n" and X: "chebpts2 n = Inr X"
  shows "compute_one_dimensional_matrices gl n
         = Inr (gram (\<lambda>i a. derivative (cardinal X i) (fst (gl n a))) (\<lambda>k. snd (gl n k)) (nat n),
                gram (\<lambda>i a. cardinal X i (fst (gl n a))) (\<lambda>k. snd (gl n k)) (nat n),
                mat_add
                  (gram (\<lambda>i a. derivative (cardinal X i) (fst (gl n a))) (\<lambda>k. snd (gl n k)) (nat n))
                  (gram (\<lambda>i a. cardinal X i (fst (gl n a))) (\<lambda>k. snd (gl n k)) (nat n)))"
  by (simp add: compute_one_dimensional_matrices_def evaluation_matrices_ok [OF n X] einsum_ok)

lemma gram_nth:
  "i < n \<Longrightarrow> j < n \<Longrightarrow> gram F w n ! i ! j = (\<Sum>q<n. F i q * w q * F j q)"
  by (simp add: gram_def)

lemma gram_length [simp]: "length (gram F w n) = n"
  by (simp add: gram_def)







subsection \<open>The matrices for two points\<close>

lemma upt2: "[0..<2] = [0, 1]" by (simp add: upt_rec)
lemma upt3: "[0..<3] = [0, 1, 2]" by (simp add: upt_rec)
lemma upt4: "[0..<4] = [0, 1, 2, 3]" by (simp add: upt_rec)

lemma lessThan2: "{..<2::nat} = {0, 1}" by auto

lemma chebpts2_2: "chebpts2 2 = Inr [-1, 1]"
  by (simp add: chebpts2_def arange2_def upt2)

lemma derivative_eq: "derivative f x = (f (x + 1) - f (x - 1)) / 2"
  by (simp add: derivative_def upt3 field_simps)

lemma cardinal2_0: "cardinal [-1, 1] 0 t = (1 - t) / 2"
proof -
  have "{..<length [-1, 1::real]} - {0} = {1::nat}" by auto
  then show ?thesis by (simp add: cardinal_def field_simps)
qed

lemma cardinal2_1: "cardinal [-1, 1] (Suc 0) t = (1 + t) / 2"
proof -
  have "{..<length [-1, 1::real]} - {Suc 0} = {0::nat}" by auto
  then show ?thesis by (simp add: cardinal_def field_simps)
qed

lemma compute_2:
  "compute_one_dimensional_matrices gauss2 2
   = Inr ([[1/2, -1/2], [-1/2, 1/2]], [[2/3, 1/3], [1/3, 2/3]], [[7/6, -1/6], [-1/6, 7/6]])"
proof -
  have s: "sqrt 3 * sqrt 3 = 3" by simp
  have K: "gram (\<lambda>i a. derivative (cardinal [-1, 1] i) (fst (gauss2 2 a))) (\<lambda>k. snd (gauss2 2 k)) (nat 2)
        = [[1/2, -1/2], [-1/2, 1/2]]"
    by (simp add: gram_def upt2 lessThan2 cardinal2_0 cardinal2_1 derivative_eq gauss2_def
        field_simps)
  have M: "gram (\<lambda>i a. cardinal [-1, 1] i (fst (gauss2 2 a))) (\<lambda>k. snd (gauss2 2 k)) (nat 2)
        = [[2/3, 1/3], [1/3, 2/3]]"
    by (simp add: gram_def upt2 lessThan2 cardinal2_0 cardinal2_1 gauss2_def real_sqrt_divide
        field_simps s)
  have "(2::int) \<le> 2" by simp
  from compute_ok [OF this chebpts2_2, of gauss2] show ?thesis
    unfolding K M by (simp add: mat_add_def)
qed

section \<open>The store\<close>

text \<open>The concrete store is well formed.\<close>

lemma s0_ok: "store_ok s0"
  by (auto simp add: store_ok_def s0_def split: if_splits)

section \<open>Partition of unity and the quadratic forms\<close>

text \<open>
  On distinct nodes the cardinal functions sum to 1, so their central differences sum to 0.
  The quadratic form of \<open>gram F w n\<close> is \<open>\<Sum>q. w q * (\<Sum>i. x[i] * F i q)\<^sup>2\<close>; with
  positive weights it vanishes only if the interpolant of \<open>x\<close> vanishes at every
  quadrature point.
\<close>

lemma cardinal_sum_one:
  assumes d: "distinct X" and pos: "0 < length X"
  shows "(\<Sum>j<length X. cardinal X j t) = 1"
proof -
  define n where "n = length X"
  obtain p where p: "lagrange X (replicate n 1) = Inr p"
    by (simp add: lagrange_def n_def)
  have ev: "polyval p s = (\<Sum>j<length X. cardinal X j s)" for s
    using polyval_lagrange [OF p, of s] by (simp add: n_def)
  define r where "r = polyadd p [-1]"
  have evr: "polyval r s = (\<Sum>j<length X. cardinal X j s) - 1" for s
    by (simp add: r_def ev polyval_Cons)
  have "length p \<le> length X"
    using p pos by (rule length_lagrange)
  moreover have "1 \<le> length X" using pos by linarith
  moreover have "card (set X) = length X" using d by (rule distinct_card)
  ultimately have lenr: "length r \<le> card (set X)"
    by (simp add: r_def)
  have roots: "polyval r z = 0" if z: "z \<in> set X" for z
  proof -
    obtain m where m: "m < length X" "z = X ! m"
      using z unfolding in_set_conv_nth by blast
    have "(\<Sum>j<length X. cardinal X j (X ! m)) = (\<Sum>j<length X. if j = m then 1 else 0)"
      by (rule sum.cong) (simp_all add: cardinal_at_node [OF d _ m(1)])
    also have "\<dots> = 1" using m(1) by simp
    finally show ?thesis by (simp add: evr m(2))
  qed
  have "polyval r t = 0"
    using lenr _ roots by (rule polyval_roots_zero) simp
  then show ?thesis by (simp add: evr)
qed

lemma derivative_sum:
  "derivative (\<lambda>t. \<Sum>j<n. f j t) x = (\<Sum>j<n. derivative (f j) x)"
  by (simp only: derivative_eq sum_subtractf sum_divide_distrib [symmetric])

lemma derivative_const: "derivative (\<lambda>t. c) x = 0"
  by (simp add: derivative_eq)

lemma derivative_cardinal_sum:
  assumes "distinct X" and "0 < length X"
  shows "(\<Sum>j<length X. derivative (cardinal X j) x) = 0"
proof -
  have "(\<Sum>j<length X. derivative (cardinal X j) x)
        = derivative (\<lambda>t. \<Sum>j<length X. cardinal X j t) x"
    by (simp only: derivative_sum)
  also have "(\<lambda>t. \<Sum>j<length X. cardinal X j t) = (\<lambda>t. 1)"
    using cardinal_sum_one [OF assms] by (intro ext)
  finally show ?thesis by (simp only: derivative_const)
qed

lemma dot_gram_ones:
  assumes "\<And>q. q < n \<Longrightarrow> (\<Sum>j<n. F j q) = 0"
  shows "dot (gram F w n) (replicate n 1) = replicate n 0"
proof -
  have "(\<Sum>j \<leftarrow> [0..<n]. gram F w n ! i ! j * replicate n 1 ! j) = 0" if i: "i < n" for i
  proof -
    have "(\<Sum>j \<leftarrow> [0..<n]. gram F w n ! i ! j * replicate n 1 ! j)
          = (\<Sum>j<n. gram F w n ! i ! j * replicate n 1 ! j)"
      by (simp add: sum_list_distinct_conv_sum_set atLeast0LessThan)
    also have "\<dots> = (\<Sum>j<n. \<Sum>q<n. F i q * w q * F j q)"
      by (rule sum.cong) (simp_all add: gram_nth [OF i])
    also have "\<dots> = (\<Sum>q<n. \<Sum>j<n. F i q * w q * F j q)"
      by (rule sum.swap)
    also have "\<dots> = (\<Sum>q<n. F i q * w q * (\<Sum>j<n. F j q))"
      by (simp add: sum_distrib_left)
    also have "\<dots> = 0"
      using assms by simp
    finally show ?thesis .
  qed
  then show ?thesis
    by (auto simp add: dot_def intro!: nth_equalityI)
qed



lemma length_dot [simp]: "length (dot A x) = length A"
  by (simp add: dot_def)








section \<open>Four points\<close>

text \<open>
  For \<open>n = 4\<close> the nodes are \<open>-1, -1/2, 1/2, 1\<close> and the basis polynomial of node 1 is
  \<open>4/3 x\<^sup>3 - 2/3 x\<^sup>2 - 4/3 x + 2/3\<close>.
\<close>

lemma chebpts2_4: "chebpts2 4 = Inr [-1, -1/2, 1/2, 1]"
proof -
  have a: "5 / 10 * pi / 3 * 3 = pi / 2" "5 / 10 * pi / 3 = pi / 6" by simp_all
  show ?thesis
    by (simp add: chebpts2_def arange2_def upt4 sin_30 a)
qed

lemma get_e_4: "get_e 4 = Inr [[1,0,0,0],[0,1,0,0],[0,0,1,0],[0,0,0,1]]"
  by (simp add: get_e_def zeros2_def upt4 eval_nat_numeral)

lemma basis_4_1:
  "get_basis 4 [[1,0,0,0],[0,1,0,0],[0,0,1,0],[0,0,0,1]] [-1, -1/2, 1/2, 1] 1
   = Inr [4/3, -2/3, -4/3, 2/3]"
  by code_simp

lemma polyder_basis_4_1: "polyder [4/3, -2/3, -4/3, 2/3] = [4, -4/3, -4/3]"
  by code_simp

lemma central_difference_4_1:
  "derivative (polyval [4/3, -2/3, -4/3, 2/3]) x = polyval [4, -4/3, -4/3] x + 4 / 3"
  by (simp add: derivative_eq polyval_Cons power2_eq_square power3_eq_cube field_simps)

text \<open>The four-point rule: its moments against the squared central difference.\<close>

lemma sqrt65: "sqrt (6/5) = sqrt 30 / 5"
proof -
  have "sqrt (6/5) = sqrt (30 / 25)" by simp
  also have "\<dots> = sqrt 30 / sqrt 25" by (rule real_sqrt_divide)
  also have "sqrt 25 = 5" using real_sqrt_abs [of 5] by simp
  finally show ?thesis .
qed

lemma t30: "sqrt 30 * sqrt 30 = 30" by simp

lemma t30_bound: "sqrt 30 \<le> 15 / 2"
proof -
  have "sqrt 30 \<le> sqrt ((15/2)\<^sup>2)"
    by (simp only: real_sqrt_le_iff) (simp add: power2_eq_square)
  then show ?thesis by simp
qed

lemma a_sq: "sqrt (3/7 - 2/7 * sqrt (6/5)) * sqrt (3/7 - 2/7 * sqrt (6/5)) = 3/7 - 2/35 * sqrt 30"
proof -
  have "0 \<le> 3/7 - 2/7 * sqrt (6/5)"
    using t30_bound by (simp add: sqrt65)
  then show ?thesis by (simp add: sqrt65)
qed

lemma b_sq: "sqrt (3/7 + 2/7 * sqrt (6/5)) * sqrt (3/7 + 2/7 * sqrt (6/5)) = 3/7 + 2/35 * sqrt 30"
proof -
  have "0 \<le> 3/7 + 2/7 * sqrt (6/5)"
    by (simp add: add_nonneg_nonneg)
  then show ?thesis by (simp add: sqrt65)
qed

lemma pair_sum:
  fixes x w :: real
  shows "(4 * (- x)\<^sup>2 - 4/3 * (- x)) * w * (4 * (- x)\<^sup>2 - 4/3 * (- x))
       + (4 * x\<^sup>2 - 4/3 * x) * w * (4 * x\<^sup>2 - 4/3 * x)
       = w * (32 * ((x * x) * (x * x)) + 32/9 * (x * x))"
  by (simp add: power2_eq_square algebra_simps)

lemma moment_sum:
  fixes a b t :: real
  assumes a: "a * a = 3/7 - 2/35 * t" and b: "b * b = 3/7 + 2/35 * t" and t: "t * t = 30"
  shows "(4 * (- b)\<^sup>2 - 4/3 * (- b)) * ((18 - t) / 36) * (4 * (- b)\<^sup>2 - 4/3 * (- b))
       + (4 * (- a)\<^sup>2 - 4/3 * (- a)) * ((18 + t) / 36) * (4 * (- a)\<^sup>2 - 4/3 * (- a))
       + (4 * a\<^sup>2 - 4/3 * a) * ((18 + t) / 36) * (4 * a\<^sup>2 - 4/3 * a)
       + (4 * b\<^sup>2 - 4/3 * b) * ((18 - t) / 36) * (4 * b\<^sup>2 - 4/3 * b)
       = 1024 / 135"
proof -
  define wa where "wa = (18 + t) / 36"
  define wb where "wb = (18 - t) / 36"
  have "(4 * (- b)\<^sup>2 - 4/3 * (- b)) * wb * (4 * (- b)\<^sup>2 - 4/3 * (- b))
       + (4 * (- a)\<^sup>2 - 4/3 * (- a)) * wa * (4 * (- a)\<^sup>2 - 4/3 * (- a))
       + (4 * a\<^sup>2 - 4/3 * a) * wa * (4 * a\<^sup>2 - 4/3 * a)
       + (4 * b\<^sup>2 - 4/3 * b) * wb * (4 * b\<^sup>2 - 4/3 * b)
      = wb * (32 * ((b * b) * (b * b)) + 32/9 * (b * b))
        + wa * (32 * ((a * a) * (a * a)) + 32/9 * (a * a))"
    using pair_sum [of a wa] pair_sum [of b wb] by linarith
  also have "\<dots> = wb * (32 * ((3/7 + 2/35 * t) * (3/7 + 2/35 * t)) + 32/9 * (3/7 + 2/35 * t))
        + wa * (32 * ((3/7 - 2/35 * t) * (3/7 - 2/35 * t)) + 32/9 * (3/7 - 2/35 * t))"
    by (simp only: a b)
  also have "\<dots> = 1088 / 147 + 608 / 99225 * (t * t)"
    unfolding wa_def wb_def by (simp add: field_simps)
  also have "\<dots> = 1024 / 135"
    unfolding t by simp
  finally show ?thesis
    unfolding wa_def wb_def .
qed

lemma sum_lessThan_4: "(\<Sum>q<4. f q) = f 0 + f 1 + f 2 + f (3::nat)" for f :: "nat \<Rightarrow> real"
  by (simp add: eval_nat_numeral)

lemma central_difference_4_1_closed:
  "derivative (polyval [4/3, -2/3, -4/3, 2/3]) x = 4 * x\<^sup>2 - 4/3 * x"
  by (simp add: derivative_eq polyval_Cons power2_eq_square power3_eq_cube field_simps)

lemma integral_exact_4_1:
  "integral_m11 (poly_mul (polyder [4/3, -2/3, -4/3, 2/3]) (polyder [4/3, -2/3, -4/3, 2/3]))
   = 544 / 135"
  by code_simp

section \<open>The claims\<close>

text \<open>
  C1 (the code departs from the claim). The claim: \<open>B[i,\<alpha>]\<close> is the \<open>i\<close>-th basis
  polynomial at the quadrature point \<open>q[\<alpha>]\<close> and \<open>D[i,\<alpha>]\<close> is its exact derivative
  there, for every \<open>n \<ge> 2\<close>. The first half holds. For the second the code calls
  \<open>scipy.misc.derivative\<close>, a central difference with spacing 1, which is exact only up
  to degree 2: for \<open>n = 4\<close> and any quadrature table, the entry \<open>D[1,0]\<close> is the exact
  derivative (\<open>polyder\<close>, as the notebook's text defines it) plus \<open>4/3\<close>; and with the
  four-point Gauss-Legendre rule the entry \<open>K[1,1]\<close> returned is \<open>1024/135\<close>, where the
  integral of the squared derivative of that basis polynomial over \<open>[-1, 1]\<close> is
  \<open>544/135\<close>.
\<close>

theorem derivative_entry_not_exact:
  "\<exists>e X v.
      get_e 4 = Inr e \<and> chebpts2 4 = Inr X \<and> get_basis 4 e X 1 = Inr v
    \<and> (\<exists>B D w. evaluation_matrices gl 4 = Inr ((B, D), w)
          \<and> B ! 1 ! 0 = polyval v (fst (gl 4 0))
          \<and> D ! 1 ! 0 = polyval (polyder v) (fst (gl 4 0)) + 4 / 3)
    \<and> (\<exists>K M A. compute_one_dimensional_matrices gauss4 4 = Inr (K, M, A)
          \<and> K ! 1 ! 1 = 1024 / 135
          \<and> integral_m11 (poly_mul (polyder v) (polyder v)) = 544 / 135)"
proof -
  define e where "e = [[1,0,0,0],[0,1,0,0],[0,0,1,0],[0,0,0,1::real]]"
  define X where "X = [-1, -1/2, 1/2, 1::real]"
  define v where "v = [4/3, -2/3, -4/3, 2/3::real]"
  define F where "F = (\<lambda>i a. derivative (cardinal X i) (fst (gauss4 4 a)))"
  define w where "w = (\<lambda>k. snd (gauss4 4 k))"
  have e: "get_e 4 = Inr e" unfolding e_def by (rule get_e_4)
  have X: "chebpts2 4 = Inr X" unfolding X_def by (rule chebpts2_4)
  have v: "get_basis 4 e X 1 = Inr v" unfolding e_def X_def v_def by (rule basis_4_1)
  have four: "(2::int) \<le> 4" "(0::int) \<le> 4" "(1::nat) < nat 4" "length X = nat 4"
    by (simp_all add: X_def)
  obtain p where p: "get_basis 4 e X 1 = Inr p" "polyval p = cardinal X 1"
    using get_basis_ok [OF four(2) e four(4) four(3)] by blast
  have pv: "cardinal X 1 = polyval v"
    using p v by simp
  \<comment> \<open>the entry of \<open>D\<close>, for any quadrature table\<close>
  have ev: "evaluation_matrices gl 4
         = Inr ((map (\<lambda>i. map (\<lambda>a. cardinal X i (fst (gl 4 a))) [0..<nat 4]) [0..<nat 4],
                 map (\<lambda>i. map (\<lambda>a. derivative (cardinal X i) (fst (gl 4 a))) [0..<nat 4]) [0..<nat 4]),
                map (\<lambda>k. snd (gl 4 k)) [0..<nat 4])"
    using four(1) X by (rule evaluation_matrices_ok)
  have B: "map (\<lambda>i. map (\<lambda>a. cardinal X i (fst (gl 4 a))) [0..<nat 4]) [0..<nat 4] ! 1 ! 0
           = polyval v (fst (gl 4 0))"
    using pv by simp
  have "derivative (polyval v) (fst (gl 4 0)) = polyval (polyder v) (fst (gl 4 0)) + 4 / 3"
    unfolding v_def polyder_basis_4_1 by (rule central_difference_4_1)
  then have D: "map (\<lambda>i. map (\<lambda>a. derivative (cardinal X i) (fst (gl 4 a))) [0..<nat 4]) [0..<nat 4] ! 1 ! 0
           = polyval (polyder v) (fst (gl 4 0)) + 4 / 3"
    using pv by simp
  \<comment> \<open>the entry of \<open>K\<close>, for the four-point rule\<close>
  have c: "compute_one_dimensional_matrices gauss4 4
           = Inr (gram F w (nat 4), gram (\<lambda>i a. cardinal X i (fst (gauss4 4 a))) w (nat 4),
                  mat_add (gram F w (nat 4)) (gram (\<lambda>i a. cardinal X i (fst (gauss4 4 a))) w (nat 4)))"
    unfolding F_def w_def using four(1) X by (rule compute_ok)
  have F1: "F 1 a = 4 * (fst (gauss4 4 a))\<^sup>2 - 4/3 * fst (gauss4 4 a)" for a
    unfolding F_def pv v_def by (rule central_difference_4_1_closed)
  have "gram F w (nat 4) ! 1 ! 1 = (\<Sum>q<nat 4. F 1 q * w q * F 1 q)"
    using four(3) four(3) by (rule gram_nth)
  also have "\<dots> = F 1 0 * w 0 * F 1 0 + F 1 1 * w 1 * F 1 1 + F 1 2 * w 2 * F 1 2
                    + F 1 3 * w 3 * F 1 3"
    using sum_lessThan_4 [of "\<lambda>q. F 1 q * w q * F 1 q"] by simp
  also have "\<dots> = 1024 / 135"
    unfolding F1 w_def using moment_sum [OF a_sq b_sq t30]
    by (simp add: gauss4_def)
  finally have K: "gram F w (nat 4) ! 1 ! 1 = 1024 / 135" .
  have I: "integral_m11 (poly_mul (polyder v) (polyder v)) = 544 / 135"
    unfolding v_def by (rule integral_exact_4_1)
  show ?thesis
    using e X v ev B D c K I by blast
qed

text \<open>
  C2 (the code departs from the claim). The claim: for a symmetric positive definite
  operator, \<open>cg\<close> returns an iterate whose residual norm \<open>\<parallel>b - matvec(x)\<parallel>\<close> is at most the
  tolerance. The stub returns the initial guess: for the 1 by 1 identity operator,
  \<open>b = [1]\<close>, \<open>x0 = [0]\<close> and the default tolerance \<open>1e-05\<close> it returns \<open>[0]\<close>, whose
  residual norm is 1.
\<close>

theorem cg_stub_residual:
  "(case cg s0 (matvec_dot [[1]]) 0 1 (1 / 100000) 10000 of
      Inr (x, s') \<Rightarrow> cells s' x = Some [0] \<and> residual_norm s' (matvec_dot [[1]]) 0 x = Inr 1
    | Inl err \<Rightarrow> False)
   \<and> \<not> (1::real) \<le> 1 / 100000"
  by (simp add: cg_def ndarray_copy_def alloc_def s0_def residual_norm_def matvec_dot_def
        dot_def norm2_def)

text \<open>
  C3 (the code departs from the claim). The claim: the error returned by
  \<open>compute_error_one_d\<close> for the manufactured solution decays spectrally, down to machine
  precision, as \<open>n\<close> goes from 10 to 20. The stub returns \<open>1/n\<close>: \<open>1/10\<close> at 10 and
  \<open>1/20\<close> at 20, more than \<open>1/100\<close>, an algebraic decay of order one.
\<close>

theorem compute_error_one_d_algebraic:
  "compute_error_one_d 10 exact_one_d rhs_one_d = Inr (1 / 10)
   \<and> compute_error_one_d 20 exact_one_d rhs_one_d = Inr (1 / 20)
   \<and> (1::real) / 20 > 1 / 100"
  by (simp add: compute_error_one_d_def)

text \<open>
  C4, as the claim states it, fails: for \<open>n = 1\<close> the error is not
  \<open>InvalidDiscretization\<close>.
\<close>

theorem small_n_not_InvalidDiscretization:
  "compute_one_dimensional_matrices (\<lambda>deg k. (0, 2)) 1 \<noteq> Inl InvalidDiscretization"
  by (simp add: compute_one_dimensional_matrices_def evaluation_matrices_def get_e_def
        zeros2_def chebpts2_def split: sum.splits)

text \<open>
  C4, amended. For every integer \<open>n < 2\<close> and every quadrature table,
  \<open>compute_one_dimensional_matrices\<close> returns no matrices and fails with the ValueError
  that numpy raises (\<open>np.zeros\<close> for a negative \<open>n\<close>, \<open>chebpts2\<close> for 0 and 1).
\<close>

theorem small_n_raises_ValueError:
  "n < 2 \<Longrightarrow> compute_one_dimensional_matrices gl n = Inl ValueError"
  by (simp add: compute_one_dimensional_matrices_def evaluation_matrices_def get_e_def
        zeros2_def chebpts2_def split: sum.splits)

theorem small_n_raises_ValueError_witness:
  "(1::int) < 2 \<and> compute_one_dimensional_matrices (\<lambda>deg k. (0, 2)) 1 = Inl ValueError"
  using small_n_raises_ValueError [of 1 "\<lambda>deg k. (0, 2)"] by simp



text \<open>
  C6. For every \<open>n \<ge> 2\<close> the call returns matrices, and \<open>K\<close> maps the all-ones vector
  to the zero vector (exactly, in real arithmetic): the rows of \<open>D\<close> are differences of a
  partition of unity.
\<close>

theorem K_ones_zero:
  assumes "2 \<le> n"
  shows "\<exists>K M A. compute_one_dimensional_matrices gl n = Inr (K, M, A)
           \<and> dot K (replicate (nat n) 1) = replicate (nat n) 0"
proof -
  obtain X where X: "chebpts2 n = Inr X" "length X = nat n" "distinct X"
    using chebpts2_ok [OF assms] by blast
  have pos: "0 < length X" using assms X(2) by simp
  have "(\<Sum>j<nat n. derivative (cardinal X j) (fst (gl n q))) = 0" for q
    using derivative_cardinal_sum [OF X(3) pos] by (simp add: X(2))
  then have "dot (gram (\<lambda>i a. derivative (cardinal X i) (fst (gl n a))) (\<lambda>k. snd (gl n k)) (nat n))
                (replicate (nat n) 1) = replicate (nat n) 0"
    by (intro dot_gram_ones)
  then show ?thesis
    unfolding compute_ok [OF assms X(1)] by blast
qed

theorem K_ones_zero_witness:
  "(2::int) \<le> 2
   \<and> (\<exists>K M A. compute_one_dimensional_matrices gauss2 2 = Inr (K, M, A)
           \<and> K = [[1/2, -1/2], [-1/2, 1/2]]
           \<and> dot K [1, 1] = [0, 0])"
proof -
  have h: "(2::int) \<le> 2" by simp
  have "replicate (nat 2) (1::real) = [1, 1]" "replicate (nat 2) (0::real) = [0, 0]"
    by (simp_all add: numeral_2_eq_2)
  then show ?thesis
    using h K_ones_zero [OF h, of gauss2] by (auto simp add: compute_2)
qed



text \<open>
  C8. For every \<open>n \<ge> 2\<close> and all indices \<open>i, j\<close> in \<open>0..n-1\<close>, the polynomial
  \<open>get_basis(n, get_e(n), X, i)\<close> on the Chebyshev nodes \<open>X = chebpts2(n)\<close> takes the
  value 1 at \<open>X[i]\<close> and 0 at every other node \<open>X[j]\<close>.
\<close>

theorem basis_cardinal_property:
  assumes "2 \<le> n" and "i < nat n" and "j < nat n"
  shows "\<exists>e X v. get_e n = Inr e \<and> chebpts2 n = Inr X \<and> get_basis n e X i = Inr v
           \<and> polyval v (X ! j) = (if i = j then 1 else 0)"
proof -
  have n0: "0 \<le> n" using assms(1) by simp
  obtain X where X: "chebpts2 n = Inr X" "length X = nat n" "distinct X"
    using chebpts2_ok [OF assms(1)] by blast
  obtain e where e: "get_e n = Inr e"
    using get_e_ok [OF n0] by blast
  obtain v where v: "get_basis n e X i = Inr v" "polyval v = cardinal X i"
    using get_basis_ok [OF n0 e X(2) assms(2)] by blast
  have "polyval v (X ! j) = (if i = j then 1 else 0)"
    using cardinal_at_node [OF X(3), of i j] assms(2,3) X(2) by (simp add: v(2))
  then show ?thesis
    using e X(1) v(1) by blast
qed

theorem basis_cardinal_property_witness:
  "(2::int) \<le> 4 \<and> (1::nat) < nat 4 \<and> (3::nat) < nat 4
   \<and> (\<exists>e X v. get_e 4 = Inr e \<and> chebpts2 4 = Inr X \<and> get_basis 4 e X 1 = Inr v
           \<and> X = [-1, -1/2, 1/2, 1] \<and> v = [4/3, -2/3, -4/3, 2/3]
           \<and> polyval v (X ! 3) = 0)"
proof -
  have h: "(2::int) \<le> 4" "(1::nat) < nat 4" "(3::nat) < nat 4" by simp_all
  from basis_cardinal_property [OF h] obtain e X v
    where r: "get_e 4 = Inr e" "chebpts2 4 = Inr X" "get_basis 4 e X 1 = Inr v"
      "polyval v (X ! 3) = (if (1::nat) = 3 then 1 else 0)"
    by blast
  have e: "e = [[1,0,0,0],[0,1,0,0],[0,0,1,0],[0,0,0,1]]"
    using r(1) unfolding get_e_4 by simp
  have X: "X = [-1, -1/2, 1/2, 1]"
    using r(2) unfolding chebpts2_4 by simp
  have v: "v = [4/3, -2/3, -4/3, 2/3]"
    using r(3) unfolding e X basis_4_1 by simp
  have z: "polyval v (X ! 3) = 0"
    using r(4) by simp
  show ?thesis
    using h r(1,2,3) X v z by blast
qed

text \<open>
  C9. For a live array reference \<open>x0\<close>, \<open>cg\<close> returns a reference \<open>x\<close> that was not
  allocated before and holds the contents of \<open>x0\<close>; every array allocated before, \<open>x0\<close>
  among them, keeps its contents; and neither the reference nor the store returned depends
  on \<open>matvec\<close>, \<open>b\<close>, \<open>tol\<close> or \<open>maxiter\<close>, nor the result on the contents of \<open>b\<close>.
\<close>

theorem cg_returns_copy:
  assumes ok: "store_ok s" and x0: "cells s x0 = Some v"
  shows "\<exists>x s'. cg s matvec b x0 tol maxiter = Inr (x, s')
           \<and> x \<notin> dom (cells s)
           \<and> cells s' x = Some v
           \<and> cells s' x0 = Some v
           \<and> (\<forall>a. a \<noteq> x \<longrightarrow> cells s' a = cells s a)
           \<and> cg s matvec' b' x0 tol' maxiter' = Inr (x, s')
           \<and> (b \<noteq> x0 \<longrightarrow>
                (\<exists>s''. cg (s\<lparr>cells := (cells s)(b \<mapsto> vb)\<rparr>) matvec b x0 tol maxiter = Inr (x, s'')
                      \<and> cells s'' x = Some v))"
proof -
  have fresh: "next_addr s \<notin> dom (cells s)"
    using ok by (simp add: store_ok_def)
  then have ne: "next_addr s \<noteq> x0"
    using x0 by auto
  show ?thesis
    using x0 fresh ne
    by (simp add: cg_def ndarray_copy_def alloc_def)
qed

theorem cg_returns_copy_witness:
  "store_ok s0 \<and> cells s0 1 = Some [0]
   \<and> (\<exists>x s'. cg s0 (matvec_dot [[1]]) 0 1 (1 / 100000) 10000 = Inr (x, s')
           \<and> x = 2
           \<and> x \<notin> dom (cells s0)
           \<and> cells s' x = Some [0]
           \<and> cells s' 1 = Some [0]
           \<and> cells s' 0 = cells s0 0
           \<and> cg s0 (\<lambda>s a. Inl ValueError) 1 1 0 0 = Inr (x, s')
           \<and> (\<exists>s''. cg (s0\<lparr>cells := (cells s0)(0 \<mapsto> [7])\<rparr>) (matvec_dot [[1]]) 0 1
                       (1 / 100000) 10000 = Inr (x, s'')
                     \<and> cells s'' x = Some [0]))"
proof -
  have c: "cells s0 1 = Some [0]" by (simp add: s0_def)
  have ev: "cg s0 (matvec_dot [[1]]) 0 1 (1 / 100000) 10000
           = Inr (2, s0\<lparr>next_addr := 3, cells := (cells s0)(2 \<mapsto> [0])\<rparr>)"
    by (simp add: cg_def ndarray_copy_def alloc_def s0_def)
  from cg_returns_copy [OF s0_ok c, of "matvec_dot [[1]]" 0 "1 / 100000" 10000
        "\<lambda>s a. Inl ValueError" 1 0 0 "[7]"]
  obtain x s' where r:
    "cg s0 (matvec_dot [[1]]) 0 1 (1 / 100000) 10000 = Inr (x, s')"
    "x \<notin> dom (cells s0)"
    "cells s' x = Some [0]"
    "cells s' 1 = Some [0]"
    "\<forall>a. a \<noteq> x \<longrightarrow> cells s' a = cells s0 a"
    "cg s0 (\<lambda>s a. Inl ValueError) 1 1 0 0 = Inr (x, s')"
    "(0::nat) \<noteq> 1 \<longrightarrow>
       (\<exists>s''. cg (s0\<lparr>cells := (cells s0)(0 \<mapsto> [7])\<rparr>) (matvec_dot [[1]]) 0 1
                (1 / 100000) 10000 = Inr (x, s'')
              \<and> cells s'' x = Some [0])"
    by blast
  have x2: "x = 2"
    using r(1) unfolding ev by simp
  have "0 \<in> dom (cells s0)" by (simp add: s0_def)
  with r(2) have "0 \<noteq> x" by blast
  with r(5) have k: "cells s' 0 = cells s0 0" by blast
  have "(0::nat) \<noteq> 1" by simp
  with r(7) obtain s'' where s'':
    "cg (s0\<lparr>cells := (cells s0)(0 \<mapsto> [7])\<rparr>) (matvec_dot [[1]]) 0 1
        (1 / 100000) 10000 = Inr (x, s'')"
    "cells s'' x = Some [0]"
    by blast
  show ?thesis
    using s0_ok c r(1) x2 r(2,3,4) k r(6) s'' by blast
qed

text \<open>
  C10, as the claim states it, fails at \<open>n = 0\<close>: the division raises, and no value is
  returned (in HOL \<open>1 / 0\<close> is 0, which is not what the call gives).
\<close>

theorem compute_error_one_d_zero_raises:
  "compute_error_one_d 0 exact_one_d rhs_one_d = Inl ZeroDivisionError
   \<and> compute_error_one_d 0 exact_one_d rhs_one_d \<noteq> Inr (1 / real_of_int 0)"
  by (simp add: compute_error_one_d_def)

text \<open>
  C10, amended. For every integer \<open>n\<close> other than 0 the call returns exactly \<open>1/n\<close>, for
  \<open>n = 0\<close> it raises ZeroDivisionError, and in both cases the outcome is the same for all
  \<open>exact\<close> and \<open>rhs\<close> arguments.
\<close>

theorem compute_error_one_d_stub:
  "compute_error_one_d n exact rhs =
     (if n = 0 then Inl ZeroDivisionError else Inr (1 / real_of_int n))
   \<and> compute_error_one_d n exact' rhs' = compute_error_one_d n exact rhs"
  by (simp add: compute_error_one_d_def)

theorem compute_error_one_d_stub_witness:
  "compute_error_one_d 10 exact_one_d rhs_one_d = Inr (1 / 10)
   \<and> compute_error_one_d 10 (\<lambda>x. 0) (\<lambda>x. x) = compute_error_one_d 10 exact_one_d rhs_one_d"
  using compute_error_one_d_stub [of 10 exact_one_d rhs_one_d "\<lambda>x. 0" "\<lambda>x. x"] by simp

end
